theory Spec2Isabelle
  imports Main
begin

section \<open>Python strings and paths\<close>

text \<open>
  A Python \<open>str\<close> is a \<^typ>\<open>string\<close>.  The library calls that
  \<^verbatim>\<open>src/mcp/pf2e_server.py\<close> makes on strings and paths are written out here
  after their documented behaviour (\<open>str.endswith\<close>, \<open>str.replace\<close>,
  \<open>str.join\<close>, and \<open>posixpath\<close>'s \<open>join\<close>, \<open>basename\<close>
  and \<open>dirname\<close>; the data path of the source is a POSIX path).
\<close>

definition endswith :: "string \<Rightarrow> string \<Rightarrow> bool" where
  "endswith s suf \<longleftrightarrow> length suf \<le> length s \<and> drop (length s - length suf) s = suf"

definition startswith :: "string \<Rightarrow> string \<Rightarrow> bool" where
  "startswith s pre \<longleftrightarrow> take (length pre) s = pre"

text \<open>
  \<open>s.replace(old, new)\<close>: one pass from the left, every non-overlapping occurrence of
  \<open>old\<close> is replaced and scanning resumes after the occurrence in the \<^emph>\<open>input\<close>
  (the text already produced is never scanned again).  With an empty \<open>old\<close> Python
  puts \<open>new\<close> before every character and at the end.
\<close>

fun replace_from :: "string \<Rightarrow> string \<Rightarrow> string \<Rightarrow> string" where
  "replace_from old new [] = []"
| "replace_from old new (c # cs) =
     (if old \<noteq> [] \<and> startswith (c # cs) old
      then new @ replace_from old new (drop (length old) (c # cs))
      else c # replace_from old new cs)"

definition replace :: "string \<Rightarrow> string \<Rightarrow> string \<Rightarrow> string" where
  "replace s old new =
     (if old = [] then new @ concat (map (\<lambda>c. c # new) s) else replace_from old new s)"

text \<open>\<open>sep.join(parts)\<close>.\<close>

fun str_join :: "string \<Rightarrow> string list \<Rightarrow> string" where
  "str_join sep [] = []"
| "str_join sep [x] = x"
| "str_join sep (x # y # ys) = x @ sep @ str_join sep (y # ys)"

text \<open>\<open>string.ascii_lowercase\<close>, \<open>string.ascii_uppercase\<close> and \<open>string.digits\<close>.\<close>

definition ascii_lowercase :: string where
  "ascii_lowercase = ''abcdefghijklmnopqrstuvwxyz''"

definition ascii_uppercase :: string where
  "ascii_uppercase = ''ABCDEFGHIJKLMNOPQRSTUVWXYZ''"

definition digits :: string where
  "digits = ''0123456789''"

text \<open>\<open>os.path.join(a, b)\<close>, \<open>os.path.basename(p)\<close> and \<open>os.path.dirname(p)\<close> of \<open>posixpath\<close>.\<close>

definition os_path_join :: "string \<Rightarrow> string \<Rightarrow> string" where
  "os_path_join a b =
     (if startswith b ''/'' then b
      else if a = [] \<or> endswith a ''/'' then a @ b
      else a @ ''/'' @ b)"

definition os_path_basename :: "string \<Rightarrow> string" where
  "os_path_basename p = rev (takeWhile (\<lambda>c. c \<noteq> CHR ''/'') (rev p))"

definition os_path_dirname :: "string \<Rightarrow> string" where
  "os_path_dirname p =
     (let head = rev (dropWhile (\<lambda>c. c \<noteq> CHR ''/'') (rev p))
      in if head \<noteq> [] \<and> head \<noteq> replicate (length head) (CHR ''/'')
         then rev (dropWhile (\<lambda>c. c = CHR ''/'') (rev head))
         else head)"

section \<open>Errors and dictionaries\<close>

text \<open>The exceptions that the two functions of the source can let escape.\<close>

datatype py_error =
    KeyError
  | ValueError
  | FileNotFoundError
  | PermissionError
  | UnicodeDecodeError
  | JSONDecodeError

text \<open>
  A Python \<open>dict\<close> keeps its keys in insertion order, and assigning to a key that is
  already present keeps the key's place and replaces its value: an association list
  with at most one pair per key.
\<close>

type_synonym ('k, 'v) dict = "('k \<times> 'v) list"

fun dict_set :: "('k, 'v) dict \<Rightarrow> 'k \<Rightarrow> 'v \<Rightarrow> ('k, 'v) dict" where
  "dict_set [] k v = [(k, v)]"
| "dict_set ((k', v') # d) k v =
     (if k' = k then (k', v) # d else (k', v') # dict_set d k v)"

definition dict_keys :: "('k, 'v) dict \<Rightarrow> 'k list" where
  "dict_keys d = map fst d"

definition dict_get :: "('k, 'v) dict \<Rightarrow> 'k \<Rightarrow> py_error + 'v" where
  "dict_get d k = (case map_of d k of None \<Rightarrow> Inl KeyError | Some v \<Rightarrow> Inr v)"

section \<open>The index builder\<close>

text \<open>
  \<open>os.walk(DATA_PATH)\<close> yields one triple \<open>(root, dirs, files)\<close> per directory, in the
  order of the traversal; the list of these triples is the input of the builder.
  Line 19 of the source derives the key of a file name.
\<close>

type_synonym walk = "(string \<times> string list \<times> string list) list"

definition name_key :: "string \<Rightarrow> string" where
  "name_key file = replace (replace (replace file ''.json'' []) '';'' '':'') ''_'' '' ''"

fun index_files :: "string \<Rightarrow> string list \<Rightarrow> (string, string) dict \<Rightarrow> (string, string) dict" where
  "index_files root [] global_map = global_map"
| "index_files root (file # files) global_map =
     index_files root files
       (if endswith file ''.json''
        then dict_set global_map (name_key file) (os_path_join root file)
        else global_map)"

fun index_walk :: "walk \<Rightarrow> (string, string) dict \<Rightarrow> (string, string) dict" where
  "index_walk [] global_map = global_map"
| "index_walk ((root, dirs, files) # rest) global_map =
     index_walk rest (index_files root files global_map)"

definition build_global_index :: "walk \<Rightarrow> (string, string) dict" where
  "build_global_index w = index_walk w []"

text \<open>
  The statement side of the builder: the files that the traversal visits and that pass
  the filter of line 17, in the order of the visit, each with the key and the full path
  that lines 19 and 20 give it.
\<close>

definition indexed_files :: "string \<Rightarrow> string list \<Rightarrow> (string \<times> string) list" where
  "indexed_files root files =
     map (\<lambda>file. (name_key file, os_path_join root file))
       (filter (\<lambda>file. endswith file ''.json'') files)"

definition visited :: "walk \<Rightarrow> (string \<times> string) list" where
  "visited w = concat (map (\<lambda>(root, dirs, files). indexed_files root files) w)"

text \<open>\<open>sub in s\<close>: the string \<open>sub\<close> occurs in \<open>s\<close>.\<close>

fun contains :: "string \<Rightarrow> string \<Rightarrow> bool" where
  "contains [] sub \<longleftrightarrow> sub = []"
| "contains (c # cs) sub \<longleftrightarrow> startswith (c # cs) sub \<or> contains cs sub"

section \<open>The query handler\<close>

text \<open>
  The libraries that \<open>pf2e_search\<close> calls are parameters of the embedding.
  \<open>process.extract(query, choices, limit)\<close> returns a list of tuples, best first; a tuple
  holds the chosen string, its score, and whatever further components the scorer adds
  (\<open>rest\<close>).  Line 36 of the source reads component 1 of a tuple, line 42 unpacks a
  tuple into exactly three names, which raises \<open>ValueError\<close> on any other length.
  Scores are integers, as the scorer's default rating gives them.
  \<open>json.load\<close> parses the text of a file or raises, \<open>json.dumps(data, indent)\<close> prints
  the parsed value.  \<open>str.title\<close> follows the case tables of Unicode, which are not
  reproduced here: it is a parameter as well.
\<close>

datatype 'x match = Match (choice: string) (score: int) (rest: "'x list")

record ('x, 'j) library =
  process_extract :: "string \<Rightarrow> string list \<Rightarrow> nat \<Rightarrow> 'x match list"
  json_load :: "string \<Rightarrow> py_error + 'j"
  json_dumps :: "'j \<Rightarrow> nat \<Rightarrow> string"
  str_title :: "string \<Rightarrow> string"

text \<open>
  The scorer that line 4 imports and line 33 calls is \<open>thefuzz.process.extract\<close>, with
  its default processor and its default rating.  What the library documents of it:
  \<^item> for \<open>choices\<close> that are not a mapping (line 33 passes \<open>INDEX.keys()\<close>, a view of the
    keys) every result is a pair of the choice and its score; triples come back for a
    mapping only;
  \<^item> the processor drops what is not ASCII, turns every character that is not a letter, a
    digit or an underscore into a space, and strips the text; a query that it reduces to
    the empty string scores 0 against every choice;
  \<^item> the results are the \<open>limit\<close> best, highest score first, ties in the order of the
    choices.
  The rating of a query that is not reduced to the empty string is the parameter
  \<open>ratio\<close>.
\<close>

definition word_char :: "char \<Rightarrow> bool" where
  "word_char c \<longleftrightarrow> List.member (ascii_lowercase @ ascii_uppercase @ digits @ ''_'') c"

definition processed_empty :: "string \<Rightarrow> bool" where
  "processed_empty query \<longleftrightarrow> list_all (\<lambda>c. \<not> word_char c) query"

definition thefuzz_extract ::
  "(string \<Rightarrow> string \<Rightarrow> int) \<Rightarrow> string \<Rightarrow> string list \<Rightarrow> nat \<Rightarrow> 'x match list"
where
  "thefuzz_extract ratio query choices limit =
     take limit (sort_key (\<lambda>m. - score m)
       (map (\<lambda>c. Match c (if processed_empty query then 0 else ratio query c) []) choices))"

text \<open>
  What a call can see and touch: the module-level \<open>INDEX\<close>, the file system (for every
  path, what opening and reading the file as UTF-8 text gives: its text or the exception),
  and a log of the reads the call makes, so that "no file is opened" is a statement about
  the state the call returns.
\<close>

datatype event = Resolve string | Open string

record world =
  INDEX :: "(string, string) dict"
  files :: "string \<Rightarrow> py_error + string"
  reads :: "event list"

definition record_read :: "event \<Rightarrow> world \<Rightarrow> world" where
  "record_read ev w = w\<lparr>reads := reads w @ [ev]\<rparr>"

text \<open>Lines 33 and 36: the ranked candidates, and those of them that are kept.\<close>

definition matches :: "('x, 'j) library \<Rightarrow> string \<Rightarrow> world \<Rightarrow> 'x match list" where
  "matches lib query w = process_extract lib query (dict_keys (INDEX w)) 3"

definition good_matches :: "('x, 'j) library \<Rightarrow> string \<Rightarrow> world \<Rightarrow> 'x match list" where
  "good_matches lib query w = filter (\<lambda>m. score m > 60) (matches lib query w)"

text \<open>Line 48: the block of one document.\<close>

definition block :: "string \<Rightarrow> string \<Rightarrow> string \<Rightarrow> string" where
  "block titled category dumped =
     ''--- MATCH: '' @ titled @ '' ('' @ category @ '') --- \<newline>'' @ dumped"

text \<open>Lines 42 to 48: the body of the loop, for one candidate.\<close>

definition retrieve :: "('x, 'j) library \<Rightarrow> 'x match \<Rightarrow> world \<Rightarrow> (py_error + string) \<times> world" where
  "retrieve lib m w =
     (case rest m of
        [_] \<Rightarrow>
          (let match_name = choice m;
               w1 = record_read (Resolve match_name) w
           in case dict_get (INDEX w1) match_name of
                Inl e \<Rightarrow> (Inl e, w1)
              | Inr file_path \<Rightarrow>
                  (let w2 = record_read (Open file_path) w1
                   in case files w2 file_path of
                        Inl e \<Rightarrow> (Inl e, w2)
                      | Inr text \<Rightarrow>
                          (case json_load lib text of
                             Inl e \<Rightarrow> (Inl e, w2)
                           | Inr data \<Rightarrow>
                               (let category = os_path_basename (os_path_dirname file_path)
                                in (Inr (block (str_title lib match_name) category
                                          (json_dumps lib data 2)), w2)))))
      | _ \<Rightarrow> (Inl ValueError, w))"

text \<open>Lines 41 to 48: the loop; an exception leaves it at once.\<close>

fun retrieve_all ::
  "('x, 'j) library \<Rightarrow> 'x match list \<Rightarrow> string list \<Rightarrow> world \<Rightarrow> (py_error + string list) \<times> world"
where
  "retrieve_all lib [] results w = (Inr results, w)"
| "retrieve_all lib (m # ms) results w =
     (case retrieve lib m w of
        (Inl e, w') \<Rightarrow> (Inl e, w')
      | (Inr b, w') \<Rightarrow> retrieve_all lib ms (results @ [b]) w')"

definition no_rules :: "string \<Rightarrow> string" where
  "no_rules query = ''No rules found matching '' @ [CHR 0x27] @ query @ [CHR 0x27] @ ''.''"

definition pf2e_search :: "('x, 'j) library \<Rightarrow> string \<Rightarrow> world \<Rightarrow> (py_error + string) \<times> world" where
  "pf2e_search lib query w =
     (if good_matches lib query w = [] then (Inr (no_rules query), w)
      else case retrieve_all lib (good_matches lib query w) [] w of
             (Inl e, w') \<Rightarrow> (Inl e, w')
           | (Inr results, w') \<Rightarrow> (Inr (str_join ''\<newline>\<newline>'' results), w'))"

section \<open>Notions used in the statements\<close>

text \<open>The keys that a log of reads shows as resolved in \<open>INDEX\<close>, in order.\<close>

fun resolved :: "event list \<Rightarrow> string list" where
  "resolved [] = []"
| "resolved (Resolve k # evs) = k # resolved evs"
| "resolved (Open p # evs) = resolved evs"

text \<open>
  The world after the file at \<open>p\<close> has been deleted: opening \<open>p\<close> raises
  \<open>FileNotFoundError\<close>, every other path and the index are as before.
\<close>

definition deleted :: "string \<Rightarrow> world \<Rightarrow> world" where
  "deleted p w = w\<lparr>files := (files w)(p := Inl FileNotFoundError)\<rparr>"

text \<open>A query that is empty or made of white space only (\<open>string.whitespace\<close>).\<close>

definition whitespace :: string where
  "whitespace = [CHR '' '', CHR 0x09, CHR 0x0A, CHR 0x0B, CHR 0x0C, CHR 0x0D]"

definition blank :: "string \<Rightarrow> bool" where
  "blank q \<longleftrightarrow> list_all (\<lambda>c. List.member whitespace c) q"

section \<open>Example inputs\<close>

text \<open>Two files in different directories derive the same key.\<close>

definition walk_twins :: walk where
  "walk_twins =
     [(''/d'', [''a'', ''b''], [''readme.txt'']),
      (''/d/a'', [], [''fire_ball.json'']),
      (''/d/b'', [], [''fire ball.json'', ''shield.json''])]"

text \<open>
  A small data directory; the library's scorer with a rating that goes by the prefix a
  key shares with the query; a parser that accepts the texts starting with a brace or a
  bracket; and the world they make.  In \<open>world_corrupt\<close> one of the files no longer
  parses.  The keys of the example are ASCII texts, for which \<open>str.title\<close> is
  \<open>title_ascii\<close>: a letter that follows a letter is put in lower case, any other letter
  in upper case.
\<close>

definition walk_demo :: walk where
  "walk_demo =
     [(''/data'', [''spell'', ''condition''], [''LICENSE'']),
      (''/data/spell'', [], [''fireball.json'', ''fire_shield.json'']),
      (''/data/condition'', [], [''frightened.json'', ''grapple;condition.json''])]"

definition demo_ratio :: "string \<Rightarrow> string \<Rightarrow> int" where
  "demo_ratio q k =
     (if k = q then 100 else if take 4 k = take 4 q then 75
      else if take 1 k = take 1 q then 60 else 0)"

definition islower :: "char \<Rightarrow> bool" where
  "islower c \<longleftrightarrow> List.member ascii_lowercase c"

definition isupper :: "char \<Rightarrow> bool" where
  "isupper c \<longleftrightarrow> List.member ascii_uppercase c"

definition upper :: "char \<Rightarrow> char" where
  "upper c = (case map_of (zip ascii_lowercase ascii_uppercase) c of Some u \<Rightarrow> u | None \<Rightarrow> c)"

definition lower :: "char \<Rightarrow> char" where
  "lower c = (case map_of (zip ascii_uppercase ascii_lowercase) c of Some l \<Rightarrow> l | None \<Rightarrow> c)"

fun title_from :: "bool \<Rightarrow> string \<Rightarrow> string" where
  "title_from previous_is_cased [] = []"
| "title_from previous_is_cased (c # cs) =
     (if islower c then (if previous_is_cased then c else upper c) # title_from True cs
      else if isupper c then (if previous_is_cased then lower c else c) # title_from True cs
      else c # title_from False cs)"

definition title_ascii :: "string \<Rightarrow> string" where
  "title_ascii s = title_from False s"

definition lib_demo :: "(string, string) library" where
  "lib_demo =
     \<lparr>process_extract = thefuzz_extract demo_ratio,
      json_load = (\<lambda>t. if take 1 t = ''{'' \<or> take 1 t = ''['' then Inr t else Inl JSONDecodeError),
      json_dumps = (\<lambda>d indent. d),
      str_title = title_ascii\<rparr>"

definition files_demo :: "string \<Rightarrow> py_error + string" where
  "files_demo p =
     (case map_of
        [(''/data/spell/fireball.json'', ''{}''),
         (''/data/spell/fire_shield.json'', ''[1, 2]''),
         (''/data/condition/frightened.json'', ''{}''),
         (''/data/condition/grapple;condition.json'', ''{}'')] p of
        Some t \<Rightarrow> Inr t
      | None \<Rightarrow> Inl FileNotFoundError)"

definition world_demo :: world where
  "world_demo = \<lparr>INDEX = build_global_index walk_demo, files = files_demo, reads = []\<rparr>"

definition world_corrupt :: world where
  "world_corrupt =
     world_demo\<lparr>files := files_demo(''/data/spell/fire_shield.json'' := Inr ''oops'')\<rparr>"

section \<open>Properties of the index builder\<close>

lemma map_of_dict_set: "map_of (dict_set d k v) = (map_of d)(k \<mapsto> v)"
  by (induction d) (auto simp: fun_eq_iff)

lemma dict_keys_dict_set:
  "dict_keys (dict_set d k v) =
     (if k \<in> set (dict_keys d) then dict_keys d else dict_keys d @ [k])"
  by (induction d) (force simp: dict_keys_def)+

lemma keys_dict_set: "set (dict_keys (dict_set d k v)) = insert k (set (dict_keys d))"
  by (auto simp: dict_keys_dict_set)

lemma distinct_dict_set:
  "distinct (dict_keys d) \<Longrightarrow> distinct (dict_keys (dict_set d k v))"
  by (simp add: dict_keys_dict_set)

lemma visited_Nil: "visited [] = []"
  by (simp add: visited_def)

lemma visited_Cons: "visited ((root, dirs, fs) # w) = indexed_files root fs @ visited w"
  by (simp add: visited_def)

lemma index_files_map_of:
  "map_of (index_files root fs m) = map_of m ++ map_of (rev (indexed_files root fs))"
  by (induction fs arbitrary: m) (simp_all add: indexed_files_def map_of_dict_set)

lemma index_files_keys:
  "set (dict_keys (index_files root fs m)) =
     set (dict_keys m) \<union> fst ` set (indexed_files root fs)"
  by (induction fs arbitrary: m) (auto simp: indexed_files_def keys_dict_set)

lemma index_files_distinct:
  "distinct (dict_keys m) \<Longrightarrow> distinct (dict_keys (index_files root fs m))"
  by (induction fs arbitrary: m) (simp_all add: distinct_dict_set)

lemma index_walk_map_of:
  "map_of (index_walk w m) = map_of m ++ map_of (rev (visited w))"
  by (induction w m rule: index_walk.induct)
     (simp_all add: visited_Nil visited_Cons index_files_map_of)

lemma index_walk_keys:
  "set (dict_keys (index_walk w m)) = set (dict_keys m) \<union> fst ` set (visited w)"
  by (induction w m rule: index_walk.induct)
     (simp_all add: visited_Nil visited_Cons index_files_keys image_Un Un_assoc)

lemma index_walk_distinct:
  "distinct (dict_keys m) \<Longrightarrow> distinct (dict_keys (index_walk w m))"
  by (induction w m rule: index_walk.induct) (simp_all add: index_files_distinct)

lemma map_of_last_wins:
  assumes "k \<notin> fst ` set post"
  shows "map_of (rev (pre @ (k, p) # post)) k = Some p"
proof -
  have "map_of (rev post) k = None"
    using assms by (simp add: map_of_eq_None_iff)
  then show ?thesis by (simp add: map_add_def)
qed

text \<open>
  Claim C3.  The index holds one entry for each derived key and no other: its keys are
  pairwise distinct, they are exactly the keys derived from the visited files, and there
  are as many entries as distinct derived keys.  When several visited files derive the
  key \<open>k\<close>, the entry of \<open>k\<close> is the full path of the one visited last.
\<close>

theorem build_global_index_last_wins:
  "distinct (dict_keys (build_global_index w)) \<and>
   set (dict_keys (build_global_index w)) = fst ` set (visited w) \<and>
   length (build_global_index w) = card (fst ` set (visited w)) \<and>
   (visited w = pre @ (k, p) # post \<and> k \<notin> fst ` set post \<longrightarrow>
      dict_get (build_global_index w) k = Inr p)"
proof -
  have d: "distinct (dict_keys (build_global_index w))"
    unfolding build_global_index_def by (rule index_walk_distinct) (simp add: dict_keys_def)
  have s: "set (dict_keys (build_global_index w)) = fst ` set (visited w)"
    unfolding build_global_index_def by (simp add: index_walk_keys) (simp add: dict_keys_def)
  have l: "length (build_global_index w) = card (fst ` set (visited w))"
    using distinct_card [OF d] s by (simp add: dict_keys_def)
  have g: "dict_get (build_global_index w) k = Inr p"
    if "visited w = pre @ (k, p) # post" "k \<notin> fst ` set post"
    using that map_of_last_wins [of k post pre p]
    by (simp add: dict_get_def build_global_index_def index_walk_map_of)
  from d s l g show ?thesis by blast
qed

theorem build_global_index_last_wins_witness:
  "distinct (dict_keys (build_global_index walk_twins)) \<and>
   set (dict_keys (build_global_index walk_twins)) = fst ` set (visited walk_twins) \<and>
   length (build_global_index walk_twins) = card (fst ` set (visited walk_twins)) \<and>
   visited walk_twins =
     [(''fire ball'', ''/d/a/fire_ball.json'')] @
     (''fire ball'', ''/d/b/fire ball.json'') # [(''shield'', ''/d/b/shield.json'')] \<and>
   dict_get (build_global_index walk_twins) ''fire ball'' = Inr ''/d/b/fire ball.json'' \<and>
   length (build_global_index walk_twins) = 2"
proof -
  have v: "visited walk_twins =
     [(''fire ball'', ''/d/a/fire_ball.json'')] @
     (''fire ball'', ''/d/b/fire ball.json'') # [(''shield'', ''/d/b/shield.json'')]"
    unfolding walk_twins_def by code_simp
  have n: "''fire ball'' \<notin> fst ` set [(''shield'', ''/d/b/shield.json'')]"
    by simp
  have l: "length (build_global_index walk_twins) = 2"
    unfolding walk_twins_def by code_simp
  from build_global_index_last_wins [of walk_twins "[(''fire ball'', ''/d/a/fire_ball.json'')]"
      "''fire ball''" "''/d/b/fire ball.json''" "[(''shield'', ''/d/b/shield.json'')]"] v n l
  show ?thesis by blast
qed

lemma set_replace_from: "set (replace_from old new s) \<subseteq> set s \<union> set new"
proof (induction old new s rule: replace_from.induct)
  case (1 old new)
  show ?case by simp
next
  case (2 old new c cs)
  show ?case
  proof (cases "old \<noteq> [] \<and> startswith (c # cs) old")
    case True
    have "set (drop (length old) (c # cs)) \<subseteq> set (c # cs)"
      by (rule set_drop_subset)
    with True 2(1) show ?thesis by auto
  next
    case False
    with 2(2) show ?thesis by auto
  qed
qed

lemma replace_from_char_gone: "c \<notin> set new \<Longrightarrow> c \<notin> set (replace_from [c] new s)"
  by (induction s) (auto simp: startswith_def)

lemma replace_char_gone: "c \<notin> set new \<Longrightarrow> c \<notin> set (replace s [c] new)"
  by (simp add: replace_def replace_from_char_gone)

lemma replace_keeps_absent:
  "old \<noteq> [] \<Longrightarrow> c \<notin> set s \<Longrightarrow> c \<notin> set new \<Longrightarrow> c \<notin> set (replace s old new)"
  using set_replace_from [of old new s] by (auto simp: replace_def)

lemma name_key_chars: "CHR '';'' \<notin> set (name_key file) \<and> CHR ''_'' \<notin> set (name_key file)"
proof -
  let ?a = "replace file ''.json'' []"
  let ?b = "replace ?a '';'' '':''"
  have "CHR '';'' \<notin> set ?b" by (rule replace_char_gone) simp
  then have 1: "CHR '';'' \<notin> set (replace ?b ''_'' '' '')"
    by (rule replace_keeps_absent [rotated]) simp_all
  have 2: "CHR ''_'' \<notin> set (replace ?b ''_'' '' '')" by (rule replace_char_gone) simp
  from 1 2 show ?thesis by (simp add: name_key_def)
qed

lemma visited_key:
  "k \<in> fst ` set (visited w) \<Longrightarrow> \<exists>file. endswith file ''.json'' \<and> k = name_key file"
  by (induction w) (auto simp: visited_def indexed_files_def)

text \<open>
  Claim C10, as amended.  No key of the index contains the character \<open>;\<close> or the
  character \<open>_\<close>.  (Nothing of the kind holds of the substring \<open>.json\<close>: the one pass
  of \<open>replace\<close> never looks again at the text it has produced.)
\<close>

theorem index_keys_chars:
  "k \<in> set (dict_keys (build_global_index w)) \<Longrightarrow> CHR '';'' \<notin> set k \<and> CHR ''_'' \<notin> set k"
proof -
  assume "k \<in> set (dict_keys (build_global_index w))"
  then have "k \<in> fst ` set (visited w)"
    by (simp add: build_global_index_def index_walk_keys) (simp add: dict_keys_def)
  then obtain f where "k = name_key f" using visited_key by blast
  then show ?thesis by (simp add: name_key_chars)
qed

theorem index_keys_chars_witness:
  "''fire ball'' \<in> set (dict_keys (build_global_index walk_twins)) \<and>
   CHR '';'' \<notin> set ''fire ball'' \<and> CHR ''_'' \<notin> set ''fire ball''"
proof -
  have k: "''fire ball'' \<in> set (dict_keys (build_global_index walk_twins))"
    unfolding walk_twins_def by code_simp
  from k index_keys_chars [OF k] show ?thesis by blast
qed

text \<open>
  The file name \<open>.js.jsonon.json\<close> ends in \<open>.json\<close>; removing its two occurrences of
  \<open>.json\<close> leaves \<open>.js\<close> and \<open>on\<close>, which join to the key \<open>.json\<close>.
\<close>

theorem index_key_with_json_counterexample:
  "''.json'' \<in> set (dict_keys (build_global_index [(''/d'', [], [''.js.jsonon.json''])])) \<and>
   contains ''.json'' ''.json''"
  by code_simp

lemma json_no_cross:
  assumes "\<not> startswith s ''.json''" "s \<noteq> []"
  shows "\<not> startswith (s @ ''.json'') ''.json''"
proof -
  have len: "length ''.json'' = 5" by simp
  from assms(1) have ns: "take 5 s \<noteq> ''.json''"
    unfolding startswith_def len .
  have "take 5 (s @ ''.json'') \<noteq> ''.json''"
  proof (cases "5 \<le> length s")
    case True
    then have "take 5 (s @ ''.json'') = take 5 s" by simp
    with ns show ?thesis by metis
  next
    case False
    show ?thesis
    proof
      assume eq: "take 5 (s @ ''.json'') = ''.json''"
      from False have l: "length s < 5" by simp
      then have "take 5 (s @ ''.json'') ! length s = CHR ''.''"
        by (simp add: nth_append)
      with eq have "''.json'' ! length s = CHR ''.''" by metis
      moreover from assms(2) have "0 < length s" by simp
      with l have "length s = 1 \<or> length s = 2 \<or> length s = 3 \<or> length s = 4"
        by arith
      ultimately show False by auto
    qed
  qed
  then show ?thesis unfolding startswith_def len .
qed

lemma replace_from_trailing:
  "\<not> contains stem ''.json'' \<Longrightarrow> replace_from ''.json'' [] (stem @ ''.json'') = stem"
proof (induction stem)
  case Nil
  show ?case by (simp add: startswith_def)
next
  case (Cons c cs)
  from Cons.prems have s: "\<not> startswith (c # cs) ''.json''" and t: "\<not> contains cs ''.json''"
    by simp_all
  from json_no_cross [OF s] have "\<not> startswith (c # cs @ ''.json'') ''.json''" by simp
  with Cons.IH [OF t] show ?case by simp
qed

text \<open>
  Where \<open>.json\<close> occurs in a file name as its extension only, line 19 strips just that:
  the key is the stem with \<open>;\<close> and \<open>_\<close> re-mapped.
\<close>

lemma name_key_trailing:
  "\<not> contains stem ''.json'' \<Longrightarrow>
     name_key (stem @ ''.json'') = replace (replace stem '';'' '':'') ''_'' '' ''"
  by (simp add: name_key_def replace_def replace_from_trailing)

text \<open>
  Claim C4.  The file name \<open>a.json_b.json\<close> passes the filter of line 17, and line 19
  removes both occurrences of \<open>.json\<close> from it: the key is \<open>a b\<close>, where stripping the
  trailing extension alone would give \<open>a.json b\<close>.
\<close>

theorem name_key_interior_json:
  "endswith ''a.json_b.json'' ''.json'' \<and> name_key ''a.json_b.json'' = ''a b'' \<and>
   name_key ''a.json_b.json'' \<noteq> ''a.json b''"
  by code_simp

section \<open>Properties of the query handler\<close>

lemma resolved_append: "resolved (xs @ ys) = resolved xs @ resolved ys"
  by (induction xs rule: resolved.induct) simp_all

lemma retrieve_Inr:
  "fst (retrieve lib m w) = Inr b \<longleftrightarrow>
     (\<exists>x p t d. rest m = [x] \<and> dict_get (INDEX w) (choice m) = Inr p \<and> files w p = Inr t \<and>
        json_load lib t = Inr d \<and>
        b = block (str_title lib (choice m)) (os_path_basename (os_path_dirname p))
              (json_dumps lib d 2))"
  by (auto simp: retrieve_def record_read_def Let_def split: list.splits sum.splits)

lemma retrieve_world:
  "retrieve lib m w = (r, w') \<Longrightarrow> INDEX w' = INDEX w \<and> files w' = files w"
  by (auto simp: retrieve_def record_read_def Let_def split: list.splits sum.splits)

lemma retrieve_reads:
  "retrieve lib m w = (Inr b, w') \<Longrightarrow>
     \<exists>p. dict_get (INDEX w) (choice m) = Inr p \<and> reads w' = reads w @ [Resolve (choice m), Open p]"
  by (auto simp: retrieve_def record_read_def Let_def split: list.splits sum.splits)

lemma retrieve_cong:
  "INDEX w1 = INDEX w2 \<Longrightarrow> files w1 = files w2 \<Longrightarrow>
     fst (retrieve lib m w1) = fst (retrieve lib m w2)"
  by (auto simp: retrieve_def record_read_def Let_def split: list.splits sum.splits)

lemma retrieve_all_world:
  "retrieve_all lib ms res w = (r, w') \<Longrightarrow> INDEX w' = INDEX w \<and> files w' = files w"
proof (induction ms arbitrary: res w)
  case Nil
  then show ?case by simp
next
  case (Cons m ms)
  obtain r1 w1 where r1: "retrieve lib m w = (r1, w1)" by (cases "retrieve lib m w")
  note w1 = retrieve_world [OF r1]
  show ?case
  proof (cases r1)
    case (Inl e)
    with Cons.prems r1 w1 show ?thesis by auto
  next
    case (Inr b)
    with Cons.prems r1 have "retrieve_all lib ms (res @ [b]) w1 = (r, w')" by simp
    from Cons.IH [OF this] w1 show ?thesis by simp
  qed
qed

lemma retrieve_all_cong:
  "INDEX w1 = INDEX w2 \<Longrightarrow> files w1 = files w2 \<Longrightarrow>
     fst (retrieve_all lib ms res w1) = fst (retrieve_all lib ms res w2)"
proof (induction ms arbitrary: res w1 w2)
  case Nil
  show ?case by simp
next
  case (Cons m ms)
  obtain r1 v1 where r1: "retrieve lib m w1 = (r1, v1)" by (cases "retrieve lib m w1")
  obtain r2 v2 where r2: "retrieve lib m w2 = (r2, v2)" by (cases "retrieve lib m w2")
  from retrieve_cong [OF Cons.prems, of lib m] r1 r2 have eq: "r1 = r2" by simp
  from retrieve_world [OF r1] retrieve_world [OF r2] Cons.prems
  have v: "INDEX v1 = INDEX v2" "files v1 = files v2" by simp_all
  show ?case
  proof (cases r1)
    case (Inl e)
    with r1 r2 eq show ?thesis by auto
  next
    case (Inr b)
    with r1 r2 eq Cons.IH [OF v] show ?thesis by auto
  qed
qed

lemma good_matches_cong:
  "INDEX w1 = INDEX w2 \<Longrightarrow> good_matches lib q w1 = good_matches lib q w2"
  by (simp add: good_matches_def matches_def)

lemma pf2e_search_cong:
  assumes "INDEX w1 = INDEX w2" "files w1 = files w2"
  shows "fst (pf2e_search lib q w1) = fst (pf2e_search lib q w2)"
proof -
  have g: "good_matches lib q w1 = good_matches lib q w2"
    using assms(1) by (rule good_matches_cong)
  have "fst (retrieve_all lib (good_matches lib q w2) [] w1) =
        fst (retrieve_all lib (good_matches lib q w2) [] w2)"
    using assms by (rule retrieve_all_cong)
  then show ?thesis
    by (cases "retrieve_all lib (good_matches lib q w2) [] w1";
        cases "retrieve_all lib (good_matches lib q w2) [] w2")
       (auto simp: pf2e_search_def g split: sum.splits)
qed

lemma pf2e_search_world:
  "pf2e_search lib q w = (r, w') \<Longrightarrow> INDEX w' = INDEX w \<and> files w' = files w"
proof -
  assume a: "pf2e_search lib q w = (r, w')"
  obtain r1 w1 where r1: "retrieve_all lib (good_matches lib q w) [] w = (r1, w1)"
    by (cases "retrieve_all lib (good_matches lib q w) [] w")
  from a r1 have "w' = w \<or> w' = w1"
    by (auto simp: pf2e_search_def split: if_splits sum.splits)
  with retrieve_all_world [OF r1] show ?thesis by auto
qed

lemma retrieve_all_resolved:
  "retrieve_all lib ms res w = (Inr r, w') \<Longrightarrow>
     resolved (reads w') = resolved (reads w) @ map choice ms"
proof (induction ms arbitrary: res w)
  case Nil
  then show ?case by simp
next
  case (Cons m ms)
  obtain r1 w1 where r1: "retrieve lib m w = (r1, w1)" by (cases "retrieve lib m w")
  show ?case
  proof (cases r1)
    case (Inl e)
    with Cons.prems r1 show ?thesis by simp
  next
    case (Inr b)
    with Cons.prems r1 have "retrieve_all lib ms (res @ [b]) w1 = (Inr r, w')" by simp
    from Cons.IH [OF this] retrieve_reads [OF r1 [unfolded Inr]]
    show ?thesis by (auto simp: resolved_append)
  qed
qed

lemma thefuzz_extract_pairs:
  "m \<in> set (thefuzz_extract ratio q ks n) \<Longrightarrow> rest m = []"
proof -
  assume "m \<in> set (thefuzz_extract ratio q ks n)"
  then have "m \<in> set (map (\<lambda>c. Match c (if processed_empty q then 0 else ratio q c) []) ks)"
    unfolding thefuzz_extract_def by (auto dest: in_set_takeD)
  then show ?thesis by auto
qed

lemma thefuzz_extract_empty:
  "processed_empty q \<Longrightarrow> m \<in> set (thefuzz_extract ratio q ks n) \<Longrightarrow> score m = 0"
proof -
  assume e: "processed_empty q" and "m \<in> set (thefuzz_extract ratio q ks n)"
  then have "m \<in> set (map (\<lambda>c. Match c (if processed_empty q then 0 else ratio q c) []) ks)"
    unfolding thefuzz_extract_def by (auto dest: in_set_takeD)
  with e show ?thesis by auto
qed

lemma whitespace_not_word: "List.member whitespace c \<Longrightarrow> \<not> word_char c"
  by (auto simp: whitespace_def word_char_def ascii_lowercase_def ascii_uppercase_def digits_def)

lemma blank_processed_empty: "blank q \<Longrightarrow> processed_empty q"
  by (induction q) (simp_all add: blank_def processed_empty_def whitespace_not_word)

text \<open>
  Claim C1.  The candidates come from the scorer, asked for its best 3 over all keys of
  the index, before anything is filtered; of these \<open>pf2e_search\<close> keeps exactly the ones
  whose score is strictly above 60, so a candidate that scores 60 is dropped; and when
  the call returns a string, the keys it has resolved in the index are the kept
  candidates, in the scorer's order.
\<close>

theorem pf2e_search_candidates:
  "good_matches lib q w =
     filter (\<lambda>m. 60 < score m) (process_extract lib q (dict_keys (INDEX w)) 3) \<and>
   (score m = 60 \<longrightarrow> m \<notin> set (good_matches lib q w)) \<and>
   (pf2e_search lib q w = (Inr s, w') \<longrightarrow>
      resolved (reads w') = resolved (reads w) @
        map choice (filter (\<lambda>m. 60 < score m) (process_extract lib q (dict_keys (INDEX w)) 3)))"
proof -
  have g: "good_matches lib q w =
     filter (\<lambda>m. 60 < score m) (process_extract lib q (dict_keys (INDEX w)) 3)"
    by (simp add: good_matches_def matches_def)
  have e: "m \<notin> set (good_matches lib q w)" if "score m = 60"
    using that by (simp add: g)
  have r: "resolved (reads w') = resolved (reads w) @ map choice (good_matches lib q w)"
    if p: "pf2e_search lib q w = (Inr s, w')"
  proof (cases "good_matches lib q w = []")
    case True
    with p show ?thesis by (simp add: pf2e_search_def)
  next
    case False
    obtain r1 w1 where r1: "retrieve_all lib (good_matches lib q w) [] w = (r1, w1)"
      by (cases "retrieve_all lib (good_matches lib q w) [] w")
    with p False obtain bs where "r1 = Inr bs" "w1 = w'"
      by (cases r1) (auto simp: pf2e_search_def)
    with r1 retrieve_all_resolved show ?thesis by blast
  qed
  from g e r show ?thesis by metis
qed

theorem pf2e_search_candidates_witness:
  "good_matches lib_demo ''fireball'' world_demo =
     [Match ''fireball'' 100 [], Match ''fire shield'' 75 []] \<and>
   Match ''frightened'' 60 [] \<in>
     set (process_extract lib_demo ''fireball'' (dict_keys (INDEX world_demo)) 3) \<and>
   Match ''frightened'' 60 [] \<notin> set (good_matches lib_demo ''fireball'' world_demo) \<and>
   good_matches lib_demo ''f'' world_demo = [] \<and>
   fst (pf2e_search lib_demo ''f'' world_demo) = Inr (no_rules ''f'') \<and>
   resolved (reads (snd (pf2e_search lib_demo ''f'' world_demo))) = []"
proof -
  let ?m = "Match ''frightened'' 60 [] :: string match"
  let ?w' = "snd (pf2e_search lib_demo ''f'' world_demo)"
  have x: "process_extract lib_demo ''fireball'' (dict_keys (INDEX world_demo)) 3 =
      [Match ''fireball'' 100 [], Match ''fire shield'' 75 [], ?m]"
    by code_simp
  have y: "process_extract lib_demo ''f'' (dict_keys (INDEX world_demo)) 3 =
      [Match ''fireball'' 60 [], Match ''fire shield'' 60 [], ?m]"
    by code_simp
  have f: "fst (pf2e_search lib_demo ''f'' world_demo) = Inr (no_rules ''f'')"
    by code_simp
  then have p: "pf2e_search lib_demo ''f'' world_demo = (Inr (no_rules ''f''), ?w')"
    by (simp add: prod_eq_iff)
  have r0: "reads world_demo = []"
    by (simp add: world_demo_def)
  from pf2e_search_candidates [of lib_demo "''fireball''" world_demo ?m]
  have a: "good_matches lib_demo ''fireball'' world_demo =
      [Match ''fireball'' 100 [], Match ''fire shield'' 75 []] \<and>
      ?m \<notin> set (good_matches lib_demo ''fireball'' world_demo)"
    using x by simp
  from pf2e_search_candidates [of lib_demo "''f''" world_demo ?m "no_rules ''f''" ?w'] p y r0
  have b: "good_matches lib_demo ''f'' world_demo = [] \<and> resolved (reads ?w') = []"
    by simp
  from a b x f show ?thesis by simp
qed

text \<open>
  Claim C2.  When no ranked candidate scores strictly above 60, \<open>pf2e_search\<close> returns
  the no-results message with the query in it, and the world it returns is the one it
  was given: nothing was resolved in the index and no file was opened.
\<close>

theorem pf2e_search_no_results:
  assumes "\<forall>m \<in> set (process_extract lib q (dict_keys (INDEX w)) 3). score m \<le> 60"
  shows "pf2e_search lib q w =
           (Inr (''No rules found matching '' @ [CHR 0x27] @ q @ [CHR 0x27] @ ''.''), w) \<and>
         reads (snd (pf2e_search lib q w)) = reads w"
proof -
  have "good_matches lib q w = []"
    using assms by (auto simp: good_matches_def matches_def filter_empty_conv)
  then show ?thesis by (simp add: pf2e_search_def no_rules_def)
qed

theorem pf2e_search_no_results_witness:
  "process_extract lib_demo ''owlbear'' (dict_keys (INDEX world_demo)) 3 =
     [Match ''fireball'' 0 [], Match ''fire shield'' 0 [], Match ''frightened'' 0 []] \<and>
   pf2e_search lib_demo ''owlbear'' world_demo =
     (Inr (''No rules found matching '' @ [CHR 0x27] @ ''owlbear'' @ [CHR 0x27] @ ''.''),
      world_demo) \<and>
   reads (snd (pf2e_search lib_demo ''owlbear'' world_demo)) = reads world_demo"
proof -
  have x: "process_extract lib_demo ''owlbear'' (dict_keys (INDEX world_demo)) 3 =
     [Match ''fireball'' 0 [], Match ''fire shield'' 0 [], Match ''frightened'' 0 []]"
    by code_simp
  then have h: "\<forall>m \<in> set (process_extract lib_demo ''owlbear'' (dict_keys (INDEX world_demo)) 3).
      score m \<le> 60"
    by simp
  from pf2e_search_no_results [OF h] x show ?thesis by blast
qed

lemma retrieve_all_fails:
  "m \<in> set ms \<Longrightarrow> fst (retrieve lib m w) = Inl e \<Longrightarrow>
     \<exists>e'. fst (retrieve_all lib ms res w) = Inl e'"
proof (induction ms arbitrary: res w)
  case Nil
  then show ?case by simp
next
  case (Cons m0 ms)
  obtain r1 w1 where r1: "retrieve lib m0 w = (r1, w1)" by (cases "retrieve lib m0 w")
  show ?case
  proof (cases r1)
    case (Inl e0)
    with r1 show ?thesis by simp
  next
    case (Inr b)
    with r1 Cons.prems have "m \<noteq> m0" by auto
    with Cons.prems have m: "m \<in> set ms" by simp
    from retrieve_world [OF r1] have "fst (retrieve lib m w1) = fst (retrieve lib m w)"
      by (intro retrieve_cong) simp_all
    with Cons.prems have "fst (retrieve lib m w1) = Inl e" by simp
    from Cons.IH [OF m this] r1 Inr show ?thesis by simp
  qed
qed

lemma pf2e_search_fails:
  assumes "m \<in> set (good_matches lib q w)" "fst (retrieve lib m w) = Inl e"
  shows "\<exists>e'. fst (pf2e_search lib q w) = Inl e'"
proof -
  from assms(1) have ne: "good_matches lib q w \<noteq> []" by auto
  from retrieve_all_fails [OF assms] obtain e' where
    "fst (retrieve_all lib (good_matches lib q w) [] w) = Inl e'" by blast
  with ne show ?thesis
    by (cases "retrieve_all lib (good_matches lib q w) [] w") (auto simp: pf2e_search_def)
qed

lemma retrieve_unloadable:
  assumes "dict_get (INDEX w) (choice m) = Inr p"
    and "(\<exists>e. files w p = Inl e) \<or> (\<exists>t e. files w p = Inr t \<and> json_load lib t = Inl e)"
  shows "\<exists>e. fst (retrieve lib m w) = Inl e"
  using assms
  by (auto simp: retrieve_def record_read_def Let_def split: list.splits sum.splits)

text \<open>
  Claim C6.  When the file of one kept candidate cannot be opened, or its text does not
  parse, \<open>pf2e_search\<close> ends with an exception: no string is returned, whatever the
  other candidates would have loaded.
\<close>

theorem pf2e_search_aborts:
  assumes "m \<in> set (good_matches lib q w)"
    and "dict_get (INDEX w) (choice m) = Inr p"
    and "(\<exists>e. files w p = Inl e) \<or> (\<exists>t e. files w p = Inr t \<and> json_load lib t = Inl e)"
  shows "\<exists>e. fst (pf2e_search lib q w) = Inl e"
proof -
  from retrieve_unloadable [OF assms(2,3)] obtain e where "fst (retrieve lib m w) = Inl e" ..
  with assms(1) show ?thesis by (rule pf2e_search_fails)
qed

theorem pf2e_search_aborts_witness:
  "Match ''fire shield'' 75 [] \<in> set (good_matches lib_demo ''fireball'' world_corrupt) \<and>
   dict_get (INDEX world_corrupt) ''fire shield'' = Inr ''/data/spell/fire_shield.json'' \<and>
   files world_corrupt ''/data/spell/fire_shield.json'' = Inr ''oops'' \<and>
   json_load lib_demo ''oops'' = Inl JSONDecodeError \<and>
   (\<exists>e. fst (pf2e_search lib_demo ''fireball'' world_corrupt) = Inl e)"
proof -
  let ?m = "Match ''fire shield'' 75 [] :: string match"
  have m: "?m \<in> set (good_matches lib_demo ''fireball'' world_corrupt)"
    by code_simp
  have d: "dict_get (INDEX world_corrupt) (choice ?m) = Inr ''/data/spell/fire_shield.json''"
    by code_simp
  have f: "files world_corrupt ''/data/spell/fire_shield.json'' = Inr ''oops''"
    by (simp add: world_corrupt_def)
  have j: "json_load lib_demo ''oops'' = Inl JSONDecodeError"
    by (simp add: lib_demo_def)
  from f j have u: "(\<exists>e. files world_corrupt ''/data/spell/fire_shield.json'' = Inl e) \<or>
      (\<exists>t e. files world_corrupt ''/data/spell/fire_shield.json'' = Inr t \<and>
         json_load lib_demo t = Inl e)"
    by simp
  from pf2e_search_aborts [OF m d u] m d f j show ?thesis by simp
qed

lemma deleted_simps:
  "INDEX (deleted p w) = INDEX w"
  "files (deleted p w) p = Inl FileNotFoundError"
  "p' \<noteq> p \<Longrightarrow> files (deleted p w) p' = files w p'"
  by (simp_all add: deleted_def)

text \<open>
  Claim C5, as amended.  After the file of an index entry has been deleted, a query that
  keeps a candidate with that entry's key makes \<open>pf2e_search\<close> end with an exception:
  it returns no string, and so no report of a failed retrieval.
\<close>

theorem pf2e_search_deleted_file:
  assumes "m \<in> set (good_matches lib q w)"
    and "dict_get (INDEX w) (choice m) = Inr p"
  shows "\<exists>e. fst (pf2e_search lib q (deleted p w)) = Inl e"
proof -
  have g: "good_matches lib q (deleted p w) = good_matches lib q w"
    by (rule good_matches_cong) (simp add: deleted_simps)
  have "dict_get (INDEX (deleted p w)) (choice m) = Inr p"
    using assms(2) by (simp add: deleted_simps)
  moreover have "(\<exists>e. files (deleted p w) p = Inl e) \<or>
        (\<exists>t e. files (deleted p w) p = Inr t \<and> json_load lib t = Inl e)"
    by (simp add: deleted_simps)
  ultimately obtain e where "fst (retrieve lib m (deleted p w)) = Inl e"
    using retrieve_unloadable by blast
  moreover have "m \<in> set (good_matches lib q (deleted p w))"
    using assms(1) g by simp
  ultimately show ?thesis by (rule pf2e_search_fails [rotated])
qed

theorem pf2e_search_deleted_file_witness:
  "Match ''fire shield'' 75 [] \<in> set (good_matches lib_demo ''fireball'' world_demo) \<and>
   dict_get (INDEX world_demo) ''fire shield'' = Inr ''/data/spell/fire_shield.json'' \<and>
   (\<exists>e. fst (pf2e_search lib_demo ''fireball''
            (deleted ''/data/spell/fire_shield.json'' world_demo)) = Inl e)"
proof -
  let ?m = "Match ''fire shield'' 75 [] :: string match"
  have m: "?m \<in> set (good_matches lib_demo ''fireball'' world_demo)"
    by code_simp
  have d: "dict_get (INDEX world_demo) (choice ?m) = Inr ''/data/spell/fire_shield.json''"
    by code_simp
  from pf2e_search_deleted_file [OF m d] m d show ?thesis by simp
qed

text \<open>
  The file of the index entry \<open>fireball\<close> has been deleted, and the query \<open>fireball\<close>
  keeps that candidate: the call raises instead of returning a report.
\<close>

theorem pf2e_search_deleted_file_counterexample:
  "Match ''fireball'' 100 [] \<in>
     set (good_matches lib_demo ''fireball'' (deleted ''/data/spell/fireball.json'' world_demo)) \<and>
   dict_get (INDEX world_demo) ''fireball'' = Inr ''/data/spell/fireball.json'' \<and>
   files (deleted ''/data/spell/fireball.json'' world_demo) ''/data/spell/fireball.json'' =
     Inl FileNotFoundError \<and>
   fst (pf2e_search lib_demo ''fireball'' (deleted ''/data/spell/fireball.json'' world_demo)) =
     Inl ValueError \<and>
   \<not> (\<exists>s. fst (pf2e_search lib_demo ''fireball''
               (deleted ''/data/spell/fireball.json'' world_demo)) = Inr s)"
proof -
  have 1: "Match ''fireball'' 100 [] \<in>
     set (good_matches lib_demo ''fireball'' (deleted ''/data/spell/fireball.json'' world_demo))"
    by code_simp
  have 2: "dict_get (INDEX world_demo) ''fireball'' = Inr ''/data/spell/fireball.json''"
    by code_simp
  have 3: "fst (pf2e_search lib_demo ''fireball''
      (deleted ''/data/spell/fireball.json'' world_demo)) = Inl ValueError"
    by code_simp
  have 4: "files (deleted ''/data/spell/fireball.json'' world_demo) ''/data/spell/fireball.json'' =
     Inl FileNotFoundError"
    by (simp add: deleted_def)
  from 1 2 3 4 show ?thesis by simp
qed

text \<open>
  Claim C7.  A call of \<open>pf2e_search\<close> leaves the index and the files as they were, a
  second call with the same query in the world the first one returns gives the same
  outcome, and so does a call in any world with the same index and the same files.
\<close>

theorem pf2e_search_idempotent:
  "INDEX (snd (pf2e_search lib q w)) = INDEX w \<and>
   files (snd (pf2e_search lib q w)) = files w \<and>
   fst (pf2e_search lib q (snd (pf2e_search lib q w))) = fst (pf2e_search lib q w) \<and>
   (INDEX w2 = INDEX w \<and> files w2 = files w \<longrightarrow>
      fst (pf2e_search lib q w2) = fst (pf2e_search lib q w))"
proof -
  obtain r w' where p: "pf2e_search lib q w = (r, w')" by (cases "pf2e_search lib q w")
  note w' = pf2e_search_world [OF p]
  from w' have "fst (pf2e_search lib q w') = fst (pf2e_search lib q w)"
    by (intro pf2e_search_cong) simp_all
  moreover have "fst (pf2e_search lib q w2) = fst (pf2e_search lib q w)"
    if "INDEX w2 = INDEX w" "files w2 = files w"
    using that by (rule pf2e_search_cong)
  ultimately show ?thesis using p w' by simp
qed

theorem pf2e_search_idempotent_witness:
  "INDEX (snd (pf2e_search lib_demo ''fireball'' world_demo)) = INDEX world_demo \<and>
   files (snd (pf2e_search lib_demo ''fireball'' world_demo)) = files world_demo \<and>
   fst (pf2e_search lib_demo ''fireball'' (snd (pf2e_search lib_demo ''fireball'' world_demo))) =
     fst (pf2e_search lib_demo ''fireball'' world_demo) \<and>
   reads (world_demo\<lparr>reads := [Open ''/etc/motd'']\<rparr>) \<noteq> reads world_demo \<and>
   fst (pf2e_search lib_demo ''fireball'' (world_demo\<lparr>reads := [Open ''/etc/motd'']\<rparr>)) =
     fst (pf2e_search lib_demo ''fireball'' world_demo)"
proof -
  let ?w2 = "world_demo\<lparr>reads := [Open ''/etc/motd'']\<rparr>"
  have r: "reads ?w2 \<noteq> reads world_demo"
    by (simp add: world_demo_def)
  have e: "INDEX ?w2 = INDEX world_demo \<and> files ?w2 = files world_demo"
    by simp
  from pf2e_search_idempotent [of lib_demo "''fireball''" world_demo ?w2] r e
  show ?thesis by blast
qed

lemma retrieve_pair: "rest m = [] \<Longrightarrow> retrieve lib m w = (Inl ValueError, w)"
  by (simp add: retrieve_def)

lemma pf2e_search_pairs:
  assumes "good_matches lib q w \<noteq> []"
    and "\<forall>m \<in> set (good_matches lib q w). rest m = []"
  shows "pf2e_search lib q w = (Inl ValueError, w)"
proof -
  from assms obtain m ms where g: "good_matches lib q w = m # ms" and m: "rest m = []"
    by (cases "good_matches lib q w") auto
  show ?thesis
    by (simp add: pf2e_search_def g retrieve_pair [OF m])
qed

text \<open>
  Claim C8.  The scorer of line 33 hands line 42 pairs, and the unpacking of the first
  kept candidate raises \<open>ValueError\<close>: whenever a candidate is kept, \<open>pf2e_search\<close>
  returns no string and leaves the world as it was (nothing resolved, no file opened),
  also when the document of every kept candidate would load.
\<close>

theorem pf2e_search_raises_on_candidates:
  assumes "process_extract lib = thefuzz_extract ratio"
    and "good_matches lib q w \<noteq> []"
  shows "pf2e_search lib q w = (Inl ValueError, w)"
proof (rule pf2e_search_pairs [OF assms(2)])
  show "\<forall>m \<in> set (good_matches lib q w). rest m = []"
    by (auto simp: good_matches_def matches_def assms(1) dest: thefuzz_extract_pairs)
qed

theorem pf2e_search_raises_on_candidates_witness:
  "process_extract lib_demo = thefuzz_extract demo_ratio \<and>
   good_matches lib_demo ''fireball'' world_demo =
     [Match ''fireball'' 100 [], Match ''fire shield'' 75 []] \<and>
   dict_get (INDEX world_demo) ''fireball'' = Inr ''/data/spell/fireball.json'' \<and>
   files world_demo ''/data/spell/fireball.json'' = Inr ''{}'' \<and>
   dict_get (INDEX world_demo) ''fire shield'' = Inr ''/data/spell/fire_shield.json'' \<and>
   files world_demo ''/data/spell/fire_shield.json'' = Inr ''[1, 2]'' \<and>
   json_load lib_demo ''{}'' = Inr ''{}'' \<and>
   json_load lib_demo ''[1, 2]'' = Inr ''[1, 2]'' \<and>
   pf2e_search lib_demo ''fireball'' world_demo = (Inl ValueError, world_demo)"
proof -
  have l: "process_extract lib_demo = thefuzz_extract demo_ratio"
    by (simp add: lib_demo_def)
  have g: "good_matches lib_demo ''fireball'' world_demo =
     [Match ''fireball'' 100 [], Match ''fire shield'' 75 []]"
    by code_simp
  then have ne: "good_matches lib_demo ''fireball'' world_demo \<noteq> []"
    by simp
  have d1: "dict_get (INDEX world_demo) ''fireball'' = Inr ''/data/spell/fireball.json''"
    by code_simp
  have d2: "dict_get (INDEX world_demo) ''fire shield'' = Inr ''/data/spell/fire_shield.json''"
    by code_simp
  have f1: "files world_demo ''/data/spell/fireball.json'' = Inr ''{}''"
    by code_simp
  have f2: "files world_demo ''/data/spell/fire_shield.json'' = Inr ''[1, 2]''"
    by code_simp
  have j1: "json_load lib_demo ''{}'' = Inr ''{}''"
    by (simp add: lib_demo_def)
  have j2: "json_load lib_demo ''[1, 2]'' = Inr ''[1, 2]''"
    by (simp add: lib_demo_def)
  from pf2e_search_raises_on_candidates [OF l ne] l g d1 d2 f1 f2 j1 j2
  show ?thesis by blast
qed

text \<open>
  Lines 43 to 50 are written for triples: were every kept candidate a triple whose key
  the index maps to a path \<open>path m\<close>, whose file opens and parses to \<open>doc m\<close>, the call
  would return the blocks of the kept candidates in the scorer's order, joined by a
  blank line.
\<close>

lemma retrieve_all_loaded:
  assumes "\<forall>m \<in> set ms. (\<exists>x. rest m = [x]) \<and> dict_get (INDEX w) (choice m) = Inr (path m) \<and>
             (\<exists>t. files w (path m) = Inr t \<and> json_load lib t = Inr (doc m))"
  shows "fst (retrieve_all lib ms res w) =
           Inr (res @ map (\<lambda>m. block (str_title lib (choice m)) (os_path_basename (os_path_dirname (path m)))
                                 (json_dumps lib (doc m) 2)) ms)"
  using assms
proof (induction ms arbitrary: res w)
  case Nil
  show ?case by simp
next
  case (Cons m ms)
  let ?b = "block (str_title lib (choice m)) (os_path_basename (os_path_dirname (path m))) (json_dumps lib (doc m) 2)"
  obtain r1 w1 where r1: "retrieve lib m w = (r1, w1)" by (cases "retrieve lib m w")
  from Cons.prems have "fst (retrieve lib m w) = Inr ?b"
    unfolding retrieve_Inr by auto
  with r1 have b: "r1 = Inr ?b" by simp
  from retrieve_world [OF r1] Cons.prems
  have "\<forall>m \<in> set ms. (\<exists>x. rest m = [x]) \<and> dict_get (INDEX w1) (choice m) = Inr (path m) \<and>
             (\<exists>t. files w1 (path m) = Inr t \<and> json_load lib t = Inr (doc m))"
    by simp
  from Cons.IH [OF this, of "res @ [?b]"] r1 b show ?case by simp
qed

lemma pf2e_search_blocks_of_triples:
  assumes "good_matches lib q w \<noteq> []"
    and "\<forall>m \<in> set (good_matches lib q w).
           (\<exists>x. rest m = [x]) \<and> dict_get (INDEX w) (choice m) = Inr (path m) \<and>
           (\<exists>t. files w (path m) = Inr t \<and> json_load lib t = Inr (doc m))"
  shows "fst (pf2e_search lib q w) =
           Inr (str_join ''\<newline>\<newline>''
             (map (\<lambda>m. ''--- MATCH: '' @ str_title lib (choice m) @ '' ('' @
                        os_path_basename (os_path_dirname (path m)) @ '') --- \<newline>'' @
                        json_dumps lib (doc m) 2)
                (good_matches lib q w)))"
proof -
  from retrieve_all_loaded [OF assms(2), of "[]"] assms(1) show ?thesis
    by (cases "retrieve_all lib (good_matches lib q w) [] w")
       (simp add: pf2e_search_def block_def)
qed

text \<open>
  Claim C9.  For a query that is empty or made of white space only, the scorer of line 33
  rates every key 0, no candidate is kept, and \<open>pf2e_search\<close> returns the no-results
  message with the query in it; the world it returns is the one it was given.
\<close>

theorem pf2e_search_blank_query:
  assumes "blank q"
    and "process_extract lib = thefuzz_extract ratio"
  shows "pf2e_search lib q w =
           (Inr (''No rules found matching '' @ [CHR 0x27] @ q @ [CHR 0x27] @ ''.''), w)"
proof -
  from assms(1) have "processed_empty q" by (rule blank_processed_empty)
  then have "\<forall>m \<in> set (thefuzz_extract ratio q (dict_keys (INDEX w)) 3). score m = 0"
    by (auto dest: thefuzz_extract_empty)
  then have "good_matches lib q w = []"
    by (auto simp: good_matches_def matches_def assms(2) filter_empty_conv)
  then show ?thesis by (simp add: pf2e_search_def no_rules_def)
qed

theorem pf2e_search_blank_query_witness:
  "blank ''  '' \<and> blank [] \<and> process_extract lib_demo = thefuzz_extract demo_ratio \<and>
   process_extract lib_demo ''  '' (dict_keys (INDEX world_demo)) 3 =
     [Match ''fireball'' 0 [], Match ''fire shield'' 0 [], Match ''frightened'' 0 []] \<and>
   pf2e_search lib_demo ''  '' world_demo =
     (Inr (''No rules found matching '' @ [CHR 0x27] @ ''  '' @ [CHR 0x27] @ ''.''), world_demo) \<and>
   pf2e_search lib_demo [] world_demo =
     (Inr (''No rules found matching '' @ [CHR 0x27] @ [] @ [CHR 0x27] @ ''.''), world_demo)"
proof -
  have b: "blank ''  ''" by code_simp
  have b0: "blank []" by code_simp
  have l: "process_extract lib_demo = thefuzz_extract demo_ratio"
    by (simp add: lib_demo_def)
  have x: "process_extract lib_demo ''  '' (dict_keys (INDEX world_demo)) 3 =
     [Match ''fireball'' 0 [], Match ''fire shield'' 0 [], Match ''frightened'' 0 []]"
    by code_simp
  from pf2e_search_blank_query [OF b l, of world_demo]
    pf2e_search_blank_query [OF b0 l, of world_demo] b b0 l x
  show ?thesis by blast
qed

end
